theory Spec2Isabelle
  imports Complex_Main "HOL-Library.Log_Nat" "HOL-Library.Monad_Syntax"
begin

section \<open>IEEE binary64 values and the arithmetic the harness uses\<close>

text \<open>
  The only source file of the repository is the sweep harness \<^verbatim>\<open>_main.cpp\<close>. All of its
  loop variables are C++ \<^verbatim>\<open>double\<close>s. A \<^verbatim>\<open>double\<close> is modelled by its value: a rational
  number for a finite one, and the three special values. The sign of zero is not tracked
  (no operation of the harness depends on it).

  Every arithmetic operation computes the exact rational result and rounds it to the
  nearest binary64 value, ties to even: 53 significant bits, least exponent of the unit in
  the last place \<open>-1074\<close>, overflow to infinity from \<open>2 ^ 1024\<close> on.
\<close>

datatype double = Fin rat | PInf | NInf | NaN

definition round_half_even :: "rat \<Rightarrow> int" where
  "round_half_even q =
     (let f = \<lfloor>q\<rfloor>; d = q - of_int f
      in if d < 1 / 2 then f
         else if 1 / 2 < d then f + 1
         else if even f then f else f + 1)"

definition ulp_exponent :: "rat \<Rightarrow> int" where
  "ulp_exponent x = max 0 (bitlen \<lfloor>\<bar>x\<bar> * 2 ^ 1074\<rfloor> - 53) - 1074"

definition round_double :: "rat \<Rightarrow> double" where
  "round_double x =
     (let u = power_int 2 (ulp_exponent x);
          r = of_int (round_half_even (x / u)) * u
      in if 2 ^ 1024 \<le> r then PInf
         else if r \<le> - (2 ^ 1024) then NInf
         else Fin r)"

fun dneg :: "double \<Rightarrow> double" where
  "dneg (Fin a) = Fin (- a)"
| "dneg PInf = NInf"
| "dneg NInf = PInf"
| "dneg NaN = NaN"

fun dadd :: "double \<Rightarrow> double \<Rightarrow> double" where
  "dadd (Fin a) (Fin b) = round_double (a + b)"
| "dadd NaN _ = NaN"
| "dadd _ NaN = NaN"
| "dadd PInf NInf = NaN"
| "dadd NInf PInf = NaN"
| "dadd PInf _ = PInf"
| "dadd _ PInf = PInf"
| "dadd NInf _ = NInf"
| "dadd _ NInf = NInf"

definition dsub :: "double \<Rightarrow> double \<Rightarrow> double" where
  "dsub a b = dadd a (dneg b)"

fun dmul :: "double \<Rightarrow> double \<Rightarrow> double" where
  "dmul (Fin a) (Fin b) = round_double (a * b)"
| "dmul NaN _ = NaN"
| "dmul _ NaN = NaN"
| "dmul (Fin a) i = (if a = 0 then NaN else if 0 < a then i else dneg i)"
| "dmul i (Fin b) = (if b = 0 then NaN else if 0 < b then i else dneg i)"
| "dmul i j = (if i = j then PInf else NInf)"

fun ddiv :: "double \<Rightarrow> double \<Rightarrow> double" where
  "ddiv (Fin a) (Fin b) =
     (if b = 0 then (if a = 0 then NaN else if 0 < a then PInf else NInf)
      else round_double (a / b))"
| "ddiv NaN _ = NaN"
| "ddiv _ NaN = NaN"
| "ddiv (Fin a) _ = Fin 0"
| "ddiv i (Fin b) = (if 0 \<le> b then i else dneg i)"
| "ddiv _ _ = NaN"

text \<open>Comparisons: every comparison with a NaN is false.\<close>

fun dlt :: "double \<Rightarrow> double \<Rightarrow> bool" where
  "dlt NaN _ = False"
| "dlt _ NaN = False"
| "dlt (Fin a) (Fin b) = (a < b)"
| "dlt NInf b = (b \<noteq> NInf)"
| "dlt a PInf = (a \<noteq> PInf)"
| "dlt _ _ = False"

fun dle :: "double \<Rightarrow> double \<Rightarrow> bool" where
  "dle NaN _ = False"
| "dle _ NaN = False"
| "dle (Fin a) (Fin b) = (a \<le> b)"
| "dle NInf _ = True"
| "dle _ PInf = True"
| "dle _ _ = False"

definition dgt :: "double \<Rightarrow> double \<Rightarrow> bool" where
  "dgt a b = dlt b a"

text \<open>\<^verbatim>\<open>ldexp(x, n)\<close> is \<open>x * 2 ^ n\<close>, rounded; the harness calls it on the integer 1.\<close>

fun ldexp :: "double \<Rightarrow> int \<Rightarrow> double" where
  "ldexp (Fin a) n = round_double (a * power_int 2 n)"
| "ldexp d n = d"

section \<open>The output stream, the engine and the run of the harness\<close>

text \<open>
  An \<^verbatim>\<open>ofstream\<close> is modelled by its state bit, its floating-point format state and what
  has been written through it. Whether a path can be opened for writing is a fact of the
  file system the harness runs in; a stream whose open failed is not \<open>good\<close> and ignores
  every insertion, and the harness never tests it. A number is recorded together with the
  format flags in force when it was inserted; its decimal digits are not computed. A fresh
  stream has the default float format and precision 6. A stream that opened accepts every
  insertion: a device error while writing is not modelled.
\<close>

datatype float_format = Default_format | Scientific

datatype token = Str string | Chr char | Num float_format nat double | Endl

record ofstream =
  good :: bool
  floatfield :: float_format
  precision :: nat
  written :: "token list"

definition ofstream_open :: "bool \<Rightarrow> ofstream" where
  "ofstream_open opened =
     \<lparr>good = opened, floatfield = Default_format, precision = 6, written = []\<rparr>"

definition put_str :: "string \<Rightarrow> ofstream \<Rightarrow> ofstream" where
  "put_str t ofs = (if good ofs then ofs\<lparr>written := written ofs @ [Str t]\<rparr> else ofs)"

definition put_chr :: "char \<Rightarrow> ofstream \<Rightarrow> ofstream" where
  "put_chr c ofs = (if good ofs then ofs\<lparr>written := written ofs @ [Chr c]\<rparr> else ofs)"

definition put_double :: "double \<Rightarrow> ofstream \<Rightarrow> ofstream" where
  "put_double v ofs =
     (if good ofs then ofs\<lparr>written := written ofs @ [Num (floatfield ofs) (precision ofs) v]\<rparr>
      else ofs)"

definition put_endl :: "ofstream \<Rightarrow> ofstream" where
  "put_endl ofs = (if good ofs then ofs\<lparr>written := written ofs @ [Endl]\<rparr> else ofs)"

definition scientific :: "ofstream \<Rightarrow> ofstream" where
  "scientific ofs = ofs\<lparr>floatfield := Scientific\<rparr>"

definition setprecision :: "nat \<Rightarrow> ofstream \<Rightarrow> ofstream" where
  "setprecision n ofs = ofs\<lparr>precision := n\<rparr>"

text \<open>
  The three functions of \<^verbatim>\<open>mapairy_distribution.hpp\<close> are not part of the source at hand:
  the harness is verified for an arbitrary engine, a parameter of every plot function. The
  second argument of \<open>mapairy_cdf\<close> and \<open>mapairy_quantile\<close> is the complement flag, false
  where the harness leaves it out. An engine call is taken to return a \<^verbatim>\<open>double\<close>.
\<close>

record engine =
  mapairy_pdf :: "double \<Rightarrow> double"
  mapairy_cdf :: "double \<Rightarrow> bool \<Rightarrow> double"
  mapairy_quantile :: "double \<Rightarrow> bool \<Rightarrow> double"

text \<open>
  The run of the harness: the files of the file system it has written, what went to
  \<^verbatim>\<open>std::cout\<close>, the engine calls made so far, in the order of the insertions that use
  their results, and which paths the file system lets it open for writing.
\<close>

datatype call = Pdf_call double | Cdf_call double bool | Quantile_call double bool

record harness =
  files :: "string \<rightharpoonup> token list"
  cout :: "token list"
  calls :: "call list"
  openable :: "string \<Rightarrow> bool"

definition start :: "(string \<Rightarrow> bool) \<Rightarrow> harness" where
  "start opens = \<lparr>files = Map.empty, cout = [], calls = [], openable = opens\<rparr>"

text \<open>
  \<^verbatim>\<open>for (double x = x0; cond(x); x = step(x)) body\<close>. Nothing bounds the number of
  iterations of such a loop beforehand, so the result is an option: \<open>None\<close> is a loop that
  never ends.
\<close>

partial_function (option) for_double ::
  "(double \<Rightarrow> bool) \<Rightarrow> (double \<Rightarrow> double) \<Rightarrow> (double \<Rightarrow> 's \<Rightarrow> 's option) \<Rightarrow> double \<Rightarrow> 's \<Rightarrow> 's option"
where
  "for_double cond step body x s =
     (if cond x then do { s' \<leftarrow> body x s; for_double cond step body (step x) s' }
      else Some s)"

subsection \<open>The row written for one swept input\<close>

definition pdf_row :: "engine \<Rightarrow> double \<Rightarrow> ofstream \<times> call list \<Rightarrow> (ofstream \<times> call list) option" where
  "pdf_row E x = (\<lambda>(ofs, cs).
     let ofs = put_double x ofs;
         ofs = put_chr CHR '','' ofs;
         ofs = put_double (mapairy_pdf E x) ofs;
         ofs = put_endl ofs
     in Some (ofs, cs @ [Pdf_call x]))"

definition cdf_row :: "engine \<Rightarrow> double \<Rightarrow> ofstream \<times> call list \<Rightarrow> (ofstream \<times> call list) option" where
  "cdf_row E x = (\<lambda>(ofs, cs).
     let ofs = put_double x ofs;
         ofs = put_chr CHR '','' ofs;
         ofs = put_double (mapairy_cdf E x False) ofs;
         ofs = put_chr CHR '','' ofs;
         ofs = put_double (mapairy_cdf E x True) ofs;
         ofs = put_endl ofs
     in Some (ofs, cs @ [Cdf_call x False, Cdf_call x True]))"

definition ccdf_row :: "engine \<Rightarrow> double \<Rightarrow> ofstream \<times> call list \<Rightarrow> (ofstream \<times> call list) option" where
  "ccdf_row E x = (\<lambda>(ofs, cs).
     let ofs = put_double x ofs;
         ofs = put_chr CHR '','' ofs;
         ofs = put_double (mapairy_cdf E x True) ofs;
         ofs = put_endl ofs
     in Some (ofs, cs @ [Cdf_call x True]))"

definition quantile_row :: "engine \<Rightarrow> bool \<Rightarrow> double \<Rightarrow> ofstream \<times> call list \<Rightarrow> (ofstream \<times> call list) option" where
  "quantile_row E complementary x = (\<lambda>(ofs, cs).
     let ofs = put_double x ofs;
         ofs = put_chr CHR '','' ofs;
         ofs = put_double (mapairy_quantile E x complementary) ofs;
         ofs = put_endl ofs
     in Some (ofs, cs @ [Quantile_call x complementary]))"

subsection \<open>The seven plot functions and \<open>main\<close>\<close>

definition open_csv :: "harness \<Rightarrow> string \<Rightarrow> string \<Rightarrow> ofstream" where
  "open_csv h filepath header =
     (let ofs = ofstream_open (openable h filepath);
          ofs = put_endl (put_str header ofs)
      in setprecision 16 (scientific ofs))"

definition close_csv :: "string \<Rightarrow> harness \<Rightarrow> ofstream \<times> call list \<Rightarrow> harness" where
  "close_csv filepath h = (\<lambda>(ofs, cs).
     h\<lparr>files := (if good ofs then (files h)(filepath \<mapsto> written ofs) else files h),
       calls := cs\<rparr>)"

definition plot_pdf :: "engine \<Rightarrow> string \<Rightarrow> harness \<Rightarrow> harness option" where
  "plot_pdf E filepath h = do {
     r \<leftarrow> for_double (\<lambda>x. dle x (Fin 64)) (\<lambda>x. dadd x (ddiv (Fin 1) (Fin 1024)))
            (pdf_row E) (Fin (- 6)) (open_csv h filepath ''x,pdf'', calls h);
     Some (close_csv filepath h r)
   }"

definition plot_pdf_limit :: "engine \<Rightarrow> string \<Rightarrow> harness \<Rightarrow> harness option" where
  "plot_pdf_limit E filepath h = do {
     r \<leftarrow> for_double (\<lambda>x0. dle x0 (ldexp (Fin 1) 64)) (\<lambda>x0. dmul x0 (Fin 2))
            (\<lambda>x0. for_double (\<lambda>x. dlt x (dmul x0 (Fin 2))) (\<lambda>x. dadd x (ddiv x0 (Fin 256)))
                    (pdf_row E) x0)
            (Fin 64) (open_csv h filepath ''x,pdf'', calls h);
     Some (close_csv filepath h r)
   }"

definition plot_cdf :: "engine \<Rightarrow> string \<Rightarrow> harness \<Rightarrow> harness option" where
  "plot_cdf E filepath h = do {
     r \<leftarrow> for_double (\<lambda>x. dle x (Fin 64)) (\<lambda>x. dadd x (ddiv (Fin 1) (Fin 1024)))
            (cdf_row E) (Fin (- 6)) (open_csv h filepath ''x,cdf,ccdf'', calls h);
     Some (close_csv filepath h r)
   }"

definition plot_cdf_limit :: "engine \<Rightarrow> string \<Rightarrow> harness \<Rightarrow> harness option" where
  "plot_cdf_limit E filepath h = do {
     r \<leftarrow> for_double (\<lambda>x0. dle x0 (ldexp (Fin 1) 64)) (\<lambda>x0. dmul x0 (Fin 2))
            (\<lambda>x0. for_double (\<lambda>x. dlt x (dmul x0 (Fin 2))) (\<lambda>x. dadd x (ddiv x0 (Fin 256)))
                    (ccdf_row E) x0)
            (Fin 64) (open_csv h filepath ''x,ccdf'', calls h);
     Some (close_csv filepath h r)
   }"

definition plot_quantile :: "engine \<Rightarrow> string \<Rightarrow> harness \<Rightarrow> harness option" where
  "plot_quantile E filepath h = do {
     r \<leftarrow> for_double (\<lambda>x. dlt x (Fin 1)) (\<lambda>x. dadd x (ddiv (Fin 1) (Fin 8192)))
            (quantile_row E False) (ddiv (Fin 1) (Fin 8192)) (open_csv h filepath ''x,quantile'', calls h);
     Some (close_csv filepath h r)
   }"

definition plot_quantilelower_limit :: "engine \<Rightarrow> string \<Rightarrow> harness \<Rightarrow> harness option" where
  "plot_quantilelower_limit E filepath h = do {
     r \<leftarrow> for_double (\<lambda>x. dgt x (ldexp (Fin 1) (- 1000))) (\<lambda>x. ddiv x (Fin 2))
            (quantile_row E False) (ddiv (Fin 1) (Fin 8192)) (open_csv h filepath ''x,quantile'', calls h);
     Some (close_csv filepath h r)
   }"

definition plot_quantileupper_limit :: "engine \<Rightarrow> string \<Rightarrow> harness \<Rightarrow> harness option" where
  "plot_quantileupper_limit E filepath h = do {
     r \<leftarrow> for_double (\<lambda>x0. dgt x0 (ldexp (Fin 1) (- 128))) (\<lambda>x0. ddiv x0 (Fin 2))
            (\<lambda>x0. for_double (\<lambda>x. dgt x (ddiv x0 (Fin 2))) (\<lambda>x. dsub x (ddiv x0 (Fin 256)))
                    (quantile_row E True) x0)
            (ddiv (Fin 1) (Fin 8192)) (open_csv h filepath ''x,cquantile'', calls h);
     Some (close_csv filepath h r)
   }"

definition main :: "engine \<Rightarrow> (string \<Rightarrow> bool) \<Rightarrow> harness option" where
  "main E opens = do {
     h \<leftarrow> plot_pdf E ''../results/mapairy_pdf_cpp.csv'' (start opens);
     h \<leftarrow> plot_pdf_limit E ''../results/mapairy_pdf_limit_cpp.csv'' h;
     h \<leftarrow> plot_cdf E ''../results/mapairy_cdf_cpp.csv'' h;
     h \<leftarrow> plot_cdf_limit E ''../results/mapairy_cdf_limit_cpp.csv'' h;
     h \<leftarrow> plot_quantile E ''../results/mapairy_quantile_cpp.csv'' h;
     h \<leftarrow> plot_quantilelower_limit E ''../results/mapairy_quantilelower_limit_cpp.csv'' h;
     h \<leftarrow> plot_quantileupper_limit E ''../results/mapairy_quantileupper_limit_cpp.csv'' h;
     Some (h\<lparr>cout := cout h @ [Str ''END'', Endl]\<rparr>)
   }"

section \<open>What the sweeps are compared with\<close>

text \<open>
  The sample points of the seven sweeps, written out as lists: the central grid of step
  \<open>2 ^ -10\<close> on \<open>[-6, 64]\<close>, the probability grid of step \<open>2 ^ -13\<close>, the halving
  probabilities of the lower tail, and the octaves of the right tail (256 points from
  \<open>2 ^ k\<close> upwards) and of the upper tail (128 points from \<open>2 ^ -k\<close> downwards).
\<close>

definition central_grid :: "double list" where
  "central_grid = map (\<lambda>k. Fin (- 6 + of_nat k / 1024)) [0..<71681]"

definition quantile_grid :: "double list" where
  "quantile_grid = map (\<lambda>k. Fin (of_nat k / 8192)) [1..<8192]"

definition lower_tail :: "double list" where
  "lower_tail = map (\<lambda>k. Fin (1 / 2 ^ k)) [13..<1000]"

definition octave_up :: "nat \<Rightarrow> double list" where
  "octave_up k = map (\<lambda>j. Fin (2 ^ k + of_nat j * (2 ^ k / 256))) [0..<256]"

definition right_tail :: "double list" where
  "right_tail = concat (map octave_up [6..<65])"

definition octave_down :: "nat \<Rightarrow> double list" where
  "octave_down k = map (\<lambda>j. Fin (1 / 2 ^ k - of_nat j * (1 / 2 ^ k / 256))) [0..<128]"

definition upper_tail :: "double list" where
  "upper_tail = concat (map octave_down [13..<128])"

text \<open>
  A file of comma-separated values: the header line, then the rows; a row is the input
  and the outputs, each in scientific format with precision 16, separated by commas.
\<close>

definition row_tokens :: "double \<Rightarrow> double list \<Rightarrow> token list" where
  "row_tokens x ys =
     Num Scientific 16 x # concat (map (\<lambda>y. [Chr CHR '','', Num Scientific 16 y]) ys) @ [Endl]"

definition csv_file :: "string \<Rightarrow> token list list \<Rightarrow> token list" where
  "csv_file header rows = Str header # Endl # concat rows"

text \<open>
  The calls of a run that ended, and the test that a call of \<open>mapairy_quantile\<close> has its
  probability strictly between 0 and 1.
\<close>

definition calls_of :: "harness option \<Rightarrow> call list" where
  "calls_of r = (case r of None \<Rightarrow> [] | Some h \<Rightarrow> calls h)"


fun probability_in_range :: "call \<Rightarrow> bool" where
  "probability_in_range (Quantile_call p c) = (dlt (Fin 0) p \<and> dlt p (Fin 1))"
| "probability_in_range _ = True"

text \<open>
  Which calls a sweep makes depends neither on what the engine answers nor on the file
  system. Where a closed statement needs them, these stand in: a file system where every
  path opens, one where none does (the directory \<^verbatim>\<open>../results\<close> is missing, say), and an
  engine that answers NaN everywhere.
\<close>

definition every_file_opens :: "string \<Rightarrow> bool" where
  "every_file_opens path = True"


definition nan_engine :: engine where
  "nan_engine = \<lparr>mapairy_pdf = (\<lambda>x. NaN), mapairy_cdf = (\<lambda>x c. NaN), mapairy_quantile = (\<lambda>p c. NaN)\<rparr>"

text \<open>
  Every value the harness computes is a dyadic rational \<open>m * 2 ^ k\<close> with a short
  mantissa, so every operation on it is exact.
\<close>

definition dy :: "int \<Rightarrow> int \<Rightarrow> rat" where
  "dy m k = of_int m * power_int 2 k"

text \<open>
  After the header, the stream of a plot function is in scientific format with precision
  16; a sweep only appends to what is written and to the calls made, and leaves the state
  bit as it is.
\<close>

abbreviation st :: "bool \<Rightarrow> token list \<Rightarrow> call list \<Rightarrow> ofstream \<times> call list" where
  "st g w cs \<equiv> (\<lparr>good = g, floatfield = Scientific, precision = 16, written = w\<rparr>, cs)"

section \<open>Properties of the arithmetic\<close>

text \<open>
  The ranges of the sweeps are long: the simplifier must not write them out element by
  element.
\<close>

declare upt_rec_numeral [simp del]

subsection \<open>Values that arithmetic leaves exact\<close>

lemma round_half_even_of_int: "round_half_even (of_int z) = z"
  by (simp add: round_half_even_def)

lemma ulp_exponent_dyadic:
  assumes m: "\<bar>m\<bar> < 2 ^ 53" and k: "- 1074 \<le> k"
  shows "ulp_exponent (of_int m * power_int 2 k) \<le> k"
    and "- 1074 \<le> ulp_exponent (of_int m * power_int 2 k)"
proof -
  define n where "n = nat (k + 1074)"
  have kn: "k = int n - 1074" using k by (simp add: n_def)
  have "power_int (2::rat) k * 2 ^ 1074 = power_int 2 (k + 1074)"
    by (simp add: power_int_add)
  also have "\<dots> = 2 ^ n" by (simp add: kn)
  finally have p: "power_int (2::rat) k * 2 ^ 1074 = 2 ^ n" .
  have "\<bar>of_int m * power_int (2::rat) k\<bar> * 2 ^ 1074 = of_int \<bar>m\<bar> * (power_int 2 k * 2 ^ 1074)"
    by (simp add: abs_mult)
  also have "\<dots> = of_int (\<bar>m\<bar> * 2 ^ n)"
    by (simp only: p of_int_mult of_int_power of_int_numeral)
  finally have fl: "\<lfloor>\<bar>of_int m * power_int (2::rat) k\<bar> * 2 ^ 1074\<rfloor> = \<bar>m\<bar> * 2 ^ n"
    by (simp only: floor_of_int)
  have "bitlen (\<bar>m\<bar> * 2 ^ n) \<le> 53 + int n"
  proof (cases "m = 0")
    case True
    then show ?thesis by simp
  next
    case False
    then have pos: "0 < \<bar>m\<bar>" by simp
    have "bitlen \<bar>m\<bar> \<le> 53"
      using m by (simp add: bitlen_le_iff_power)
    then show ?thesis using pos by simp
  qed
  then show "ulp_exponent (of_int m * power_int 2 k) \<le> k"
    unfolding ulp_exponent_def fl using kn by simp
  show "- 1074 \<le> ulp_exponent (of_int m * power_int 2 k)"
    unfolding ulp_exponent_def by simp
qed

lemma round_double_exact:
  assumes m: "\<bar>m\<bar> < 2 ^ 53" and k: "- 1074 \<le> k" "k \<le> 971"
  shows "round_double (of_int m * power_int 2 k) = Fin (of_int m * power_int 2 k)"
proof -
  let ?x = "of_int m * power_int (2::rat) k"
  define e where "e = ulp_exponent ?x"
  have e: "e \<le> k" "- 1074 \<le> e"
    using ulp_exponent_dyadic [OF m k(1)] by (simp_all add: e_def)
  define j where "j = nat (k - e)"
  have kj: "k = e + int j" using e by (simp add: j_def)
  have "?x / power_int 2 e = of_int m * power_int 2 (k - e)"
    by (simp add: power_int_diff)
  also have "\<dots> = of_int (m * 2 ^ j)" by (simp add: kj)
  finally have q: "round_half_even (?x / power_int 2 e) = m * 2 ^ j"
    by (simp only: round_half_even_of_int)
  have "of_int (m * 2 ^ j) * power_int (2::rat) e = of_int m * (power_int 2 (int j) * power_int 2 e)"
    by simp
  also have "\<dots> = ?x" by (simp add: kj power_int_add add.commute)
  finally have r: "of_int (round_half_even (?x / power_int 2 e)) * power_int (2::rat) e = ?x"
    by (simp only: q)
  have "\<bar>?x\<bar> = of_int \<bar>m\<bar> * power_int 2 k" by (simp add: abs_mult)
  also have "\<dots> < 2 ^ 53 * power_int 2 k"
  proof -
    have "(of_int \<bar>m\<bar> :: rat) < of_int (2 ^ 53)" using m by (simp only: of_int_less_iff)
    then show ?thesis by simp
  qed
  also have "\<dots> \<le> 2 ^ 53 * power_int (2::rat) 971"
  proof -
    have "power_int (2::rat) k \<le> power_int 2 971"
      by (rule power_int_increasing) (use k(2) in simp_all)
    then show ?thesis by (rule mult_left_mono) simp
  qed
  also have "\<dots> = 2 ^ 1024" by simp
  finally have b: "\<bar>?x\<bar> < 2 ^ 1024" .
  then have "\<not> 2 ^ 1024 \<le> ?x" "\<not> ?x \<le> - (2 ^ 1024)" by linarith+
  then show ?thesis
    unfolding round_double_def Let_def e_def [symmetric] r by simp
qed


subsection \<open>Dyadic values\<close>

lemma round_double_dy:
  "\<bar>m\<bar> < 2 ^ 53 \<Longrightarrow> - 1074 \<le> k \<Longrightarrow> k \<le> 971 \<Longrightarrow> round_double (dy m k) = Fin (dy m k)"
  unfolding dy_def by (rule round_double_exact)

lemma dy_add: "dy m k + dy m' k = dy (m + m') k"
  by (simp add: dy_def algebra_simps)

lemma dy_diff: "dy m k - dy m' k = dy (m - m') k"
  by (simp add: dy_def algebra_simps)

lemma dy_shift: "dy (m * 2 ^ j) k = dy m (k + int j)"
  by (simp add: dy_def power_int_add)

lemma dy_twice: "dy m k * 2 = dy m (k + 1)"
  by (simp add: dy_def power_int_add)

lemma dy_div_pow2: "dy m k / 2 ^ j = dy m (k - int j)"
  by (simp add: dy_def power_int_diff)

lemma dy_less: "dy m k < dy m' k \<longleftrightarrow> m < m'"
  by (simp add: dy_def)

lemma dy_le: "dy m k \<le> dy m' k \<longleftrightarrow> m \<le> m'"
  by (simp add: dy_def)

lemma dy_one: "dy 1 0 = 1"
  by (simp add: dy_def)


lemma dadd_dy:
  "\<bar>m + m'\<bar> < 2 ^ 53 \<Longrightarrow> - 1074 \<le> k \<Longrightarrow> k \<le> 971 \<Longrightarrow>
   dadd (Fin (dy m k)) (Fin (dy m' k)) = Fin (dy (m + m') k)"
  by (simp add: dy_add round_double_dy)

lemma dsub_dy:
  "\<bar>m - m'\<bar> < 2 ^ 53 \<Longrightarrow> - 1074 \<le> k \<Longrightarrow> k \<le> 971 \<Longrightarrow>
   dsub (Fin (dy m k)) (Fin (dy m' k)) = Fin (dy (m - m') k)"
  by (simp add: dsub_def dy_diff round_double_dy)

lemma dmul_two_dy:
  "\<bar>m\<bar> < 2 ^ 53 \<Longrightarrow> - 1075 \<le> k \<Longrightarrow> k \<le> 970 \<Longrightarrow>
   dmul (Fin (dy m k)) (Fin 2) = Fin (dy m (k + 1))"
  by (simp add: dy_twice round_double_dy)

lemma ddiv_pow2_dy:
  "\<bar>m\<bar> < 2 ^ 53 \<Longrightarrow> - 1074 \<le> k - int j \<Longrightarrow> k - int j \<le> 971 \<Longrightarrow>
   ddiv (Fin (dy m k)) (Fin (2 ^ j)) = Fin (dy m (k - int j))"
  by (simp add: dy_div_pow2 round_double_dy)

lemma ddiv_two_dy:
  "\<bar>m\<bar> < 2 ^ 53 \<Longrightarrow> - 1073 \<le> k \<Longrightarrow> k \<le> 972 \<Longrightarrow>
   ddiv (Fin (dy m k)) (Fin 2) = Fin (dy m (k - 1))"
  using ddiv_pow2_dy [of m k 1] by simp

lemma ddiv_256_dy:
  "\<bar>m\<bar> < 2 ^ 53 \<Longrightarrow> - 1066 \<le> k \<Longrightarrow> k \<le> 979 \<Longrightarrow>
   ddiv (Fin (dy m k)) (Fin 256) = Fin (dy m (k - 8))"
  using ddiv_pow2_dy [of m k 8] by simp

lemma one_over_1024: "ddiv (Fin 1) (Fin 1024) = Fin (dy 1 (- 10))"
  using ddiv_pow2_dy [of 1 0 10] by (simp add: dy_one)

lemma one_over_8192: "ddiv (Fin 1) (Fin 8192) = Fin (dy 1 (- 13))"
  using ddiv_pow2_dy [of 1 0 13] by (simp add: dy_one)

lemma ldexp_one: "- 1074 \<le> n \<Longrightarrow> n \<le> 971 \<Longrightarrow> ldexp (Fin 1) n = Fin (dy 1 n)"
  using round_double_dy [of 1 n] by (simp add: dy_def)


lemma dy_one_less: "dy 1 a < dy 1 b \<longleftrightarrow> a < b"
proof
  assume "a < b"
  then show "dy 1 a < dy 1 b"
    by (simp add: dy_def power_int_strict_increasing)
next
  assume l: "dy 1 a < dy 1 b"
  show "a < b"
  proof (rule ccontr)
    assume "\<not> a < b"
    then have "b \<le> a" by simp
    then have "power_int (2::rat) b \<le> power_int 2 a"
      by (rule power_int_increasing) simp
    with l show False by (simp add: dy_def)
  qed
qed

lemma dy_one_le: "dy 1 a \<le> dy 1 b \<longleftrightarrow> a \<le> b"
  using dy_one_less [of b a] by (simp add: not_less [symmetric])

lemma dy_align:
  "dy 1 K = dy 256 (K - 8)" "dy 1 (K + 1) = dy 512 (K - 8)" "dy 1 (K - 1) = dy 128 (K - 8)"
  using dy_shift [of 1 8 "K - 8"] dy_shift [of 1 9 "K - 8"] dy_shift [of 1 7 "K - 8"]
  by (simp_all add: add.commute)


section \<open>The loops of the harness\<close>

declare dadd.simps [simp del] dmul.simps [simp del] ddiv.simps [simp del] ldexp.simps [simp del]


lemma upt_Suc_shift: "[0..<Suc n] = 0 # map Suc [0..<n]"
  by (simp only: map_Suc_upt upt_conv_Cons [OF zero_less_Suc])

lemma for_double_sweep:
  assumes "\<And>i. i < n \<Longrightarrow> cond (f i)" and "\<not> cond (f n)"
    and "\<And>i. i < n \<Longrightarrow> step (f i) = f (Suc i)"
    and "\<And>i w cs. i < n \<Longrightarrow> body (f i) (st g w cs) = Some (st g (w @ T i) (cs @ C i))"
  shows "for_double cond step body (f 0) (st g w cs) =
           Some (st g (w @ concat (map T [0..<n])) (cs @ concat (map C [0..<n])))"
  using assms
proof (induction n arbitrary: f T C w cs)
  case 0
  then show ?case by (subst for_double.simps) simp
next
  case (Suc n)
  have c0: "cond (f 0)" and s0: "step (f 0) = f (Suc 0)"
    and b0: "body (f 0) (st g w cs) = Some (st g (w @ T 0) (cs @ C 0))"
    using Suc.prems(1,3,4) by simp_all
  have "for_double cond step body ((f \<circ> Suc) 0) (st g (w @ T 0) (cs @ C 0)) =
          Some (st g ((w @ T 0) @ concat (map (T \<circ> Suc) [0..<n]))
                   ((cs @ C 0) @ concat (map (C \<circ> Suc) [0..<n])))"
    by (rule Suc.IH) (use Suc.prems in simp_all)
  then have rest: "for_double cond step body (f (Suc 0)) (st g (w @ T 0) (cs @ C 0)) =
          Some (st g (w @ concat (map T [0..<Suc n])) (cs @ concat (map C [0..<Suc n])))"
    by (simp add: upt_Suc_shift del: upt_Suc)
  show ?case
    by (subst for_double.simps) (simp only: c0 s0 b0 rest if_True bind.bind_lunit)
qed

lemma central_sweep:
  assumes body: "\<And>x w cs. body x (st g w cs) = Some (st g (w @ T x) (cs @ C x))"
  shows "for_double (\<lambda>x. dle x (Fin 64)) (\<lambda>x. dadd x (ddiv (Fin 1) (Fin 1024))) body
           (Fin (- 6)) (st g w cs) =
         Some (st g (w @ concat (map (\<lambda>i. T (Fin (dy (int i - 6144) (- 10)))) [0..<71681]))
                  (cs @ concat (map (\<lambda>i. C (Fin (dy (int i - 6144) (- 10)))) [0..<71681])))"
proof -
  let ?f = "\<lambda>i. Fin (dy (int i - 6144) (- 10))"
  have hi: "(64::rat) = dy 65536 (- 10)" and lo: "(- 6::rat) = dy (int 0 - 6144) (- 10)"
    by (simp_all add: dy_def)
  have "for_double (\<lambda>x. dle x (Fin 64)) (\<lambda>x. dadd x (ddiv (Fin 1) (Fin 1024))) body
           (?f 0) (st g w cs) =
         Some (st g (w @ concat (map (\<lambda>i. T (?f i)) [0..<71681]))
                  (cs @ concat (map (\<lambda>i. C (?f i)) [0..<71681])))"
  proof (rule for_double_sweep)
    fix i :: nat assume "i < 71681"
    then show "dle (?f i) (Fin 64)" by (simp add: hi dy_le)
    show "dadd (?f i) (ddiv (Fin 1) (Fin 1024)) = ?f (Suc i)"
      using \<open>i < 71681\<close> by (simp add: one_over_1024 dadd_dy)
  next
    show "\<not> dle (?f 71681) (Fin 64)" by (simp add: hi dy_le)
  qed (rule body)
  then show ?thesis by (simp only: lo)
qed


lemma quantile_sweep:
  assumes body: "\<And>x w cs. body x (st g w cs) = Some (st g (w @ T x) (cs @ C x))"
  shows "for_double (\<lambda>x. dlt x (Fin 1)) (\<lambda>x. dadd x (ddiv (Fin 1) (Fin 8192))) body
           (ddiv (Fin 1) (Fin 8192)) (st g w cs) =
         Some (st g (w @ concat (map (\<lambda>i. T (Fin (dy (int i + 1) (- 13)))) [0..<8191]))
                  (cs @ concat (map (\<lambda>i. C (Fin (dy (int i + 1) (- 13)))) [0..<8191])))"
proof -
  let ?f = "\<lambda>i. Fin (dy (int i + 1) (- 13))"
  have hi: "(1::rat) = dy 8192 (- 13)"
    by (simp add: dy_def)
  have "for_double (\<lambda>x. dlt x (Fin 1)) (\<lambda>x. dadd x (ddiv (Fin 1) (Fin 8192))) body
           (?f 0) (st g w cs) =
         Some (st g (w @ concat (map (\<lambda>i. T (?f i)) [0..<8191]))
                  (cs @ concat (map (\<lambda>i. C (?f i)) [0..<8191])))"
  proof (rule for_double_sweep)
    fix i :: nat assume "i < 8191"
    then show "dlt (?f i) (Fin 1)" by (simp add: hi dy_less)
    show "dadd (?f i) (ddiv (Fin 1) (Fin 8192)) = ?f (Suc i)"
      using \<open>i < 8191\<close> by (simp add: one_over_8192 dadd_dy)
  next
    show "\<not> dlt (?f 8191) (Fin 1)" by (simp add: hi dy_less)
  qed (rule body)
  then show ?thesis by (simp add: one_over_8192)
qed

lemma lower_sweep:
  assumes body: "\<And>x w cs. body x (st g w cs) = Some (st g (w @ T x) (cs @ C x))"
  shows "for_double (\<lambda>x. dgt x (ldexp (Fin 1) (- 1000))) (\<lambda>x. ddiv x (Fin 2)) body
           (ddiv (Fin 1) (Fin 8192)) (st g w cs) =
         Some (st g (w @ concat (map (\<lambda>i. T (Fin (dy 1 (- 13 - int i)))) [0..<987]))
                  (cs @ concat (map (\<lambda>i. C (Fin (dy 1 (- 13 - int i)))) [0..<987])))"
proof -
  let ?f = "\<lambda>i. Fin (dy 1 (- 13 - int i))"
  have "for_double (\<lambda>x. dgt x (ldexp (Fin 1) (- 1000))) (\<lambda>x. ddiv x (Fin 2)) body
           (?f 0) (st g w cs) =
         Some (st g (w @ concat (map (\<lambda>i. T (?f i)) [0..<987]))
                  (cs @ concat (map (\<lambda>i. C (?f i)) [0..<987])))"
  proof (rule for_double_sweep)
    fix i :: nat assume "i < 987"
    then show "dgt (?f i) (ldexp (Fin 1) (- 1000))"
      by (simp add: dgt_def ldexp_one dy_one_less)
    show "ddiv (?f i) (Fin 2) = ?f (Suc i)"
      using \<open>i < 987\<close> by (simp add: ddiv_two_dy)
  next
    show "\<not> dgt (?f 987) (ldexp (Fin 1) (- 1000))"
      by (simp add: dgt_def ldexp_one dy_one_less)
  qed (rule body)
  then show ?thesis by (simp add: one_over_8192)
qed

lemma octave_up_inner:
  assumes body: "\<And>x w cs. body x (st g w cs) = Some (st g (w @ T x) (cs @ C x))"
    and K: "6 \<le> K" "K \<le> 64"
  shows "for_double (\<lambda>x. dlt x (dmul (Fin (dy 1 K)) (Fin 2)))
           (\<lambda>x. dadd x (ddiv (Fin (dy 1 K)) (Fin 256))) body (Fin (dy 1 K)) (st g w cs) =
         Some (st g (w @ concat (map (\<lambda>j. T (Fin (dy (256 + int j) (K - 8)))) [0..<256]))
                  (cs @ concat (map (\<lambda>j. C (Fin (dy (256 + int j) (K - 8)))) [0..<256])))"
proof -
  let ?f = "\<lambda>j. Fin (dy (256 + int j) (K - 8))"
  have top: "dmul (Fin (dy 1 K)) (Fin 2) = Fin (dy 512 (K - 8))"
    using K by (simp add: dmul_two_dy dy_align(2))
  have inc: "ddiv (Fin (dy 1 K)) (Fin 256) = Fin (dy 1 (K - 8))"
    using K by (simp add: ddiv_256_dy)
  have "for_double (\<lambda>x. dlt x (dmul (Fin (dy 1 K)) (Fin 2)))
           (\<lambda>x. dadd x (ddiv (Fin (dy 1 K)) (Fin 256))) body (?f 0) (st g w cs) =
         Some (st g (w @ concat (map (\<lambda>j. T (?f j)) [0..<256]))
                  (cs @ concat (map (\<lambda>j. C (?f j)) [0..<256])))"
    unfolding top inc
  proof (rule for_double_sweep)
    fix j :: nat assume "j < 256"
    then show "dlt (?f j) (Fin (dy 512 (K - 8)))" by (simp add: dy_less)
    show "dadd (?f j) (Fin (dy 1 (K - 8))) = ?f (Suc j)"
      using \<open>j < 256\<close> K by (simp add: dadd_dy)
  next
    show "\<not> dlt (?f 256) (Fin (dy 512 (K - 8)))" by (simp add: dy_less)
  qed (rule body)
  then show ?thesis by (simp add: dy_align(1))
qed

lemma octave_up_sweep:
  assumes body: "\<And>x w cs. body x (st g w cs) = Some (st g (w @ T x) (cs @ C x))"
  shows "for_double (\<lambda>x0. dle x0 (ldexp (Fin 1) 64)) (\<lambda>x0. dmul x0 (Fin 2))
           (\<lambda>x0. for_double (\<lambda>x. dlt x (dmul x0 (Fin 2))) (\<lambda>x. dadd x (ddiv x0 (Fin 256))) body x0)
           (Fin 64) (st g w cs) =
         Some (st g (w @ concat (map (\<lambda>k. concat (map (\<lambda>j. T (Fin (dy (256 + int j) (int k - 2)))) [0..<256])) [0..<59]))
                  (cs @ concat (map (\<lambda>k. concat (map (\<lambda>j. C (Fin (dy (256 + int j) (int k - 2)))) [0..<256])) [0..<59])))"
proof -
  let ?f = "\<lambda>k. Fin (dy 1 (6 + int k))"
  let ?inner = "\<lambda>x0. for_double (\<lambda>x. dlt x (dmul x0 (Fin 2))) (\<lambda>x. dadd x (ddiv x0 (Fin 256))) body x0"
  have lo: "(64::rat) = dy 1 (6 + int 0)" by (simp add: dy_def)
  have "for_double (\<lambda>x0. dle x0 (ldexp (Fin 1) 64)) (\<lambda>x0. dmul x0 (Fin 2)) ?inner (?f 0) (st g w cs) =
         Some (st g (w @ concat (map (\<lambda>k. concat (map (\<lambda>j. T (Fin (dy (256 + int j) (int k - 2)))) [0..<256])) [0..<59]))
                  (cs @ concat (map (\<lambda>k. concat (map (\<lambda>j. C (Fin (dy (256 + int j) (int k - 2)))) [0..<256])) [0..<59])))"
  proof (rule for_double_sweep)
    fix k :: nat assume k: "k < 59"
    then show "dle (?f k) (ldexp (Fin 1) 64)" by (simp add: ldexp_one dy_one_le)
    show "dmul (?f k) (Fin 2) = ?f (Suc k)"
      using k by (simp add: dmul_two_dy add.commute add.left_commute)
    fix w cs
    show "?inner (?f k) (st g w cs) =
        Some (st g (w @ concat (map (\<lambda>j. T (Fin (dy (256 + int j) (int k - 2)))) [0..<256]))
                 (cs @ concat (map (\<lambda>j. C (Fin (dy (256 + int j) (int k - 2)))) [0..<256])))"
      using octave_up_inner [where K = "6 + int k", OF body] k by simp
  next
    show "\<not> dle (?f 59) (ldexp (Fin 1) 64)" by (simp add: ldexp_one dy_one_le)
  qed
  then show ?thesis by (simp only: lo)
qed

lemma octave_down_inner:
  assumes body: "\<And>x w cs. body x (st g w cs) = Some (st g (w @ T x) (cs @ C x))"
    and K: "- 127 \<le> K" "K \<le> - 13"
  shows "for_double (\<lambda>x. dgt x (ddiv (Fin (dy 1 K)) (Fin 2)))
           (\<lambda>x. dsub x (ddiv (Fin (dy 1 K)) (Fin 256))) body (Fin (dy 1 K)) (st g w cs) =
         Some (st g (w @ concat (map (\<lambda>j. T (Fin (dy (256 - int j) (K - 8)))) [0..<128]))
                  (cs @ concat (map (\<lambda>j. C (Fin (dy (256 - int j) (K - 8)))) [0..<128])))"
proof -
  let ?f = "\<lambda>j. Fin (dy (256 - int j) (K - 8))"
  have bot: "ddiv (Fin (dy 1 K)) (Fin 2) = Fin (dy 128 (K - 8))"
    using K by (simp add: ddiv_two_dy dy_align(3))
  have dec: "ddiv (Fin (dy 1 K)) (Fin 256) = Fin (dy 1 (K - 8))"
    using K by (simp add: ddiv_256_dy)
  have "for_double (\<lambda>x. dgt x (ddiv (Fin (dy 1 K)) (Fin 2)))
           (\<lambda>x. dsub x (ddiv (Fin (dy 1 K)) (Fin 256))) body (?f 0) (st g w cs) =
         Some (st g (w @ concat (map (\<lambda>j. T (?f j)) [0..<128]))
                  (cs @ concat (map (\<lambda>j. C (?f j)) [0..<128])))"
    unfolding bot dec
  proof (rule for_double_sweep)
    fix j :: nat assume "j < 128"
    then show "dgt (?f j) (Fin (dy 128 (K - 8)))" by (simp add: dgt_def dy_less)
    show "dsub (?f j) (Fin (dy 1 (K - 8))) = ?f (Suc j)"
      using \<open>j < 128\<close> K by (simp add: dsub_dy)
  next
    show "\<not> dgt (?f 128) (Fin (dy 128 (K - 8)))" by (simp add: dgt_def dy_less)
  qed (rule body)
  then show ?thesis by (simp add: dy_align(1))
qed

lemma octave_down_sweep:
  assumes body: "\<And>x w cs. body x (st g w cs) = Some (st g (w @ T x) (cs @ C x))"
  shows "for_double (\<lambda>x0. dgt x0 (ldexp (Fin 1) (- 128))) (\<lambda>x0. ddiv x0 (Fin 2))
           (\<lambda>x0. for_double (\<lambda>x. dgt x (ddiv x0 (Fin 2))) (\<lambda>x. dsub x (ddiv x0 (Fin 256))) body x0)
           (ddiv (Fin 1) (Fin 8192)) (st g w cs) =
         Some (st g (w @ concat (map (\<lambda>k. concat (map (\<lambda>j. T (Fin (dy (256 - int j) (- 21 - int k)))) [0..<128])) [0..<115]))
                  (cs @ concat (map (\<lambda>k. concat (map (\<lambda>j. C (Fin (dy (256 - int j) (- 21 - int k)))) [0..<128])) [0..<115])))"
proof -
  let ?f = "\<lambda>k. Fin (dy 1 (- 13 - int k))"
  let ?inner = "\<lambda>x0. for_double (\<lambda>x. dgt x (ddiv x0 (Fin 2))) (\<lambda>x. dsub x (ddiv x0 (Fin 256))) body x0"
  have "for_double (\<lambda>x0. dgt x0 (ldexp (Fin 1) (- 128))) (\<lambda>x0. ddiv x0 (Fin 2)) ?inner (?f 0) (st g w cs) =
         Some (st g (w @ concat (map (\<lambda>k. concat (map (\<lambda>j. T (Fin (dy (256 - int j) (- 21 - int k)))) [0..<128])) [0..<115]))
                  (cs @ concat (map (\<lambda>k. concat (map (\<lambda>j. C (Fin (dy (256 - int j) (- 21 - int k)))) [0..<128])) [0..<115])))"
  proof (rule for_double_sweep)
    fix k :: nat assume k: "k < 115"
    then show "dgt (?f k) (ldexp (Fin 1) (- 128))" by (simp add: dgt_def ldexp_one dy_one_less)
    show "ddiv (?f k) (Fin 2) = ?f (Suc k)"
      using k by (simp add: ddiv_two_dy)
    fix w cs
    show "?inner (?f k) (st g w cs) =
        Some (st g (w @ concat (map (\<lambda>j. T (Fin (dy (256 - int j) (- 21 - int k)))) [0..<128]))
                 (cs @ concat (map (\<lambda>j. C (Fin (dy (256 - int j) (- 21 - int k)))) [0..<128])))"
      using octave_down_inner [where K = "- 13 - int k", OF body] k by simp
  next
    show "\<not> dgt (?f 115) (ldexp (Fin 1) (- 128))" by (simp add: dgt_def ldexp_one dy_one_less)
  qed
  then show ?thesis by (simp add: one_over_8192)
qed

subsection \<open>The sweeps in terms of the sample points\<close>

lemma upt_reindex: "[a..<n + a] = map (\<lambda>i. i + a) [0..<n]"
  by (simp only: map_add_upt)

lemma concat_map_concat:
  "concat (map T (concat (map F ks))) = concat (map (\<lambda>k. concat (map T (F k))) ks)"
  by (induction ks) simp_all

lemma dy_central: "dy (int i - 6144) (- 10) = - 6 + of_nat i / 1024"
  by (simp add: dy_def field_simps)

lemma dy_quantile: "dy (int i + 1) (- 13) = of_nat (i + 1) / 8192"
  by (simp add: dy_def field_simps)

lemma dy_lower: "dy 1 (- 13 - int i) = 1 / 2 ^ (i + 13)"
proof -
  have "- 13 - int i = - int (i + 13)" by simp
  then have "dy 1 (- 13 - int i) = power_int 2 (- int (i + 13))"
    by (simp only: dy_def of_int_1 mult_1)
  also have "\<dots> = 1 / 2 ^ (i + 13)"
    by (simp only: power_int_minus_divide power_int_of_nat)
  finally show ?thesis .
qed

lemma dy_up: "dy (256 + int j) (int k - 2) = 2 ^ (k + 6) + of_nat j * (2 ^ (k + 6) / 256)"
proof -
  have "power_int (2::rat) (int k - 2) = 2 ^ k / 4"
    by (simp add: power_int_diff)
  then show ?thesis
    by (simp add: dy_def power_add field_simps)
qed

lemma dy_down:
  "dy (256 - int j) (- 21 - int k) = 1 / 2 ^ (k + 13) - of_nat j * (1 / 2 ^ (k + 13) / 256)"
proof -
  have "dy 1 (- 13 - int k - 8) = dy 1 (- 13 - int k) / 2 ^ 8"
    by (simp only: dy_div_pow2 of_nat_numeral)
  then have "power_int (2::rat) (- 21 - int k) = 1 / 2 ^ (k + 13) / 256"
    by (simp add: dy_lower) (simp add: dy_def)
  then show ?thesis
    by (simp add: dy_def field_simps)
qed

lemma central_grid_dy: "central_grid = map (\<lambda>i. Fin (dy (int i - 6144) (- 10))) [0..<71681]"
  by (simp add: central_grid_def dy_central)

lemma quantile_grid_dy: "quantile_grid = map (\<lambda>i. Fin (dy (int i + 1) (- 13))) [0..<8191]"
  using upt_reindex [of 1 8191]
  by (simp add: quantile_grid_def dy_quantile comp_def del: of_nat_Suc of_nat_add)

lemma lower_tail_dy: "lower_tail = map (\<lambda>i. Fin (dy 1 (- 13 - int i))) [0..<987]"
  using upt_reindex [of 13 987]
  by (simp add: lower_tail_def dy_lower comp_def)

lemma octave_up_dy: "octave_up (k + 6) = map (\<lambda>j. Fin (dy (256 + int j) (int k - 2))) [0..<256]"
  by (simp add: octave_up_def dy_up)

lemma octave_down_dy: "octave_down (k + 13) = map (\<lambda>j. Fin (dy (256 - int j) (- 21 - int k))) [0..<128]"
  by (simp add: octave_down_def dy_down)

lemma right_tail_dy: "right_tail = concat (map (\<lambda>k. octave_up (k + 6)) [0..<59])"
  using upt_reindex [of 6 59] by (simp add: right_tail_def comp_def)

lemma upper_tail_dy: "upper_tail = concat (map (\<lambda>k. octave_down (k + 13)) [0..<115])"
  using upt_reindex [of 13 115] by (simp add: upper_tail_def comp_def)

subsection \<open>What each plot function returns\<close>

lemma pdf_row_st:
  "pdf_row E x (st g w cs) =
     Some (st g (w @ (if g then row_tokens x [mapairy_pdf E x] else [])) (cs @ [Pdf_call x]))"
  by (simp add: pdf_row_def put_double_def put_chr_def put_endl_def row_tokens_def)

lemma cdf_row_st:
  "cdf_row E x (st g w cs) =
     Some (st g (w @ (if g then row_tokens x [mapairy_cdf E x False, mapairy_cdf E x True] else []))
              (cs @ [Cdf_call x False, Cdf_call x True]))"
  by (simp add: cdf_row_def put_double_def put_chr_def put_endl_def row_tokens_def)

lemma ccdf_row_st:
  "ccdf_row E x (st g w cs) =
     Some (st g (w @ (if g then row_tokens x [mapairy_cdf E x True] else [])) (cs @ [Cdf_call x True]))"
  by (simp add: ccdf_row_def put_double_def put_chr_def put_endl_def row_tokens_def)

lemma quantile_row_st:
  "quantile_row E c x (st g w cs) =
     Some (st g (w @ (if g then row_tokens x [mapairy_quantile E x c] else []))
              (cs @ [Quantile_call x c]))"
  by (simp add: quantile_row_def put_double_def put_chr_def put_endl_def row_tokens_def)

lemma open_csv_st:
  "(open_csv h filepath header, cs) =
     st (openable h filepath) (if openable h filepath then [Str header, Endl] else []) cs"
  by (simp add: open_csv_def ofstream_open_def put_str_def put_endl_def scientific_def
      setprecision_def)

lemma close_csv_st:
  "close_csv filepath h
     (st g ((if g then [Str header, Endl] else []) @ concat (map (\<lambda>x. if g then T x else []) xs)) cs) =
   h\<lparr>files := (if g then (files h)(filepath \<mapsto> csv_file header (map T xs)) else files h),
     calls := cs\<rparr>"
  by (simp add: close_csv_def csv_file_def)

lemma plot_pdf_run:
  "plot_pdf E filepath h =
     Some (h\<lparr>files :=
               (if openable h filepath
                then (files h)(filepath \<mapsto>
                       csv_file ''x,pdf'' (map (\<lambda>x. row_tokens x [mapairy_pdf E x]) central_grid))
                else files h),
             calls := calls h @ concat (map (\<lambda>x. [Pdf_call x]) central_grid)\<rparr>)"
proof -
  define g where "g = openable h filepath"
  have "for_double (\<lambda>x. dle x (Fin 64)) (\<lambda>x. dadd x (ddiv (Fin 1) (Fin 1024)))
          (pdf_row E) (Fin (- 6)) (st g (if g then [Str ''x,pdf'', Endl] else []) (calls h)) =
        Some (st g ((if g then [Str ''x,pdf'', Endl] else []) @
                    concat (map (\<lambda>x. if g then row_tokens x [mapairy_pdf E x] else []) central_grid))
                 (calls h @ concat (map (\<lambda>x. [Pdf_call x]) central_grid)))"
    by (simp only: central_sweep [of "pdf_row E", OF pdf_row_st] central_grid_dy map_map comp_def)
  then show ?thesis
    unfolding plot_pdf_def open_csv_st g_def [symmetric]
    by (simp only: bind.bind_lunit close_csv_st)
qed

lemma plot_pdf_limit_run:
  "plot_pdf_limit E filepath h =
     Some (h\<lparr>files :=
               (if openable h filepath
                then (files h)(filepath \<mapsto>
                       csv_file ''x,pdf'' (map (\<lambda>x. row_tokens x [mapairy_pdf E x]) right_tail))
                else files h),
             calls := calls h @ concat (map (\<lambda>x. [Pdf_call x]) right_tail)\<rparr>)"
proof -
  define g where "g = openable h filepath"
  have "for_double (\<lambda>x0. dle x0 (ldexp (Fin 1) 64)) (\<lambda>x0. dmul x0 (Fin 2))
          (\<lambda>x0. for_double (\<lambda>x. dlt x (dmul x0 (Fin 2))) (\<lambda>x. dadd x (ddiv x0 (Fin 256)))
                  (pdf_row E) x0)
          (Fin 64) (st g (if g then [Str ''x,pdf'', Endl] else []) (calls h)) =
        Some (st g ((if g then [Str ''x,pdf'', Endl] else []) @
                    concat (map (\<lambda>x. if g then row_tokens x [mapairy_pdf E x] else []) right_tail))
                 (calls h @ concat (map (\<lambda>x. [Pdf_call x]) right_tail)))"
    by (simp only: octave_up_sweep [of "pdf_row E", OF pdf_row_st] right_tail_dy concat_map_concat octave_up_dy map_map comp_def)
  then show ?thesis
    unfolding plot_pdf_limit_def open_csv_st g_def [symmetric]
    by (simp only: bind.bind_lunit close_csv_st)
qed

lemma plot_cdf_run:
  "plot_cdf E filepath h =
     Some (h\<lparr>files :=
               (if openable h filepath
                then (files h)(filepath \<mapsto>
                       csv_file ''x,cdf,ccdf'' (map (\<lambda>x. row_tokens x [mapairy_cdf E x False, mapairy_cdf E x True]) central_grid))
                else files h),
             calls := calls h @ concat (map (\<lambda>x. [Cdf_call x False, Cdf_call x True]) central_grid)\<rparr>)"
proof -
  define g where "g = openable h filepath"
  have "for_double (\<lambda>x. dle x (Fin 64)) (\<lambda>x. dadd x (ddiv (Fin 1) (Fin 1024)))
          (cdf_row E) (Fin (- 6)) (st g (if g then [Str ''x,cdf,ccdf'', Endl] else []) (calls h)) =
        Some (st g ((if g then [Str ''x,cdf,ccdf'', Endl] else []) @
                    concat (map (\<lambda>x. if g then row_tokens x [mapairy_cdf E x False, mapairy_cdf E x True] else []) central_grid))
                 (calls h @ concat (map (\<lambda>x. [Cdf_call x False, Cdf_call x True]) central_grid)))"
    by (simp only: central_sweep [of "cdf_row E", OF cdf_row_st] central_grid_dy map_map comp_def)
  then show ?thesis
    unfolding plot_cdf_def open_csv_st g_def [symmetric]
    by (simp only: bind.bind_lunit close_csv_st)
qed

lemma plot_cdf_limit_run:
  "plot_cdf_limit E filepath h =
     Some (h\<lparr>files :=
               (if openable h filepath
                then (files h)(filepath \<mapsto>
                       csv_file ''x,ccdf'' (map (\<lambda>x. row_tokens x [mapairy_cdf E x True]) right_tail))
                else files h),
             calls := calls h @ concat (map (\<lambda>x. [Cdf_call x True]) right_tail)\<rparr>)"
proof -
  define g where "g = openable h filepath"
  have "for_double (\<lambda>x0. dle x0 (ldexp (Fin 1) 64)) (\<lambda>x0. dmul x0 (Fin 2))
          (\<lambda>x0. for_double (\<lambda>x. dlt x (dmul x0 (Fin 2))) (\<lambda>x. dadd x (ddiv x0 (Fin 256)))
                  (ccdf_row E) x0)
          (Fin 64) (st g (if g then [Str ''x,ccdf'', Endl] else []) (calls h)) =
        Some (st g ((if g then [Str ''x,ccdf'', Endl] else []) @
                    concat (map (\<lambda>x. if g then row_tokens x [mapairy_cdf E x True] else []) right_tail))
                 (calls h @ concat (map (\<lambda>x. [Cdf_call x True]) right_tail)))"
    by (simp only: octave_up_sweep [of "ccdf_row E", OF ccdf_row_st] right_tail_dy concat_map_concat octave_up_dy map_map comp_def)
  then show ?thesis
    unfolding plot_cdf_limit_def open_csv_st g_def [symmetric]
    by (simp only: bind.bind_lunit close_csv_st)
qed

lemma plot_quantile_run:
  "plot_quantile E filepath h =
     Some (h\<lparr>files :=
               (if openable h filepath
                then (files h)(filepath \<mapsto>
                       csv_file ''x,quantile'' (map (\<lambda>x. row_tokens x [mapairy_quantile E x False]) quantile_grid))
                else files h),
             calls := calls h @ concat (map (\<lambda>x. [Quantile_call x False]) quantile_grid)\<rparr>)"
proof -
  define g where "g = openable h filepath"
  have "for_double (\<lambda>x. dlt x (Fin 1)) (\<lambda>x. dadd x (ddiv (Fin 1) (Fin 8192)))
          (quantile_row E False) (ddiv (Fin 1) (Fin 8192)) (st g (if g then [Str ''x,quantile'', Endl] else []) (calls h)) =
        Some (st g ((if g then [Str ''x,quantile'', Endl] else []) @
                    concat (map (\<lambda>x. if g then row_tokens x [mapairy_quantile E x False] else []) quantile_grid))
                 (calls h @ concat (map (\<lambda>x. [Quantile_call x False]) quantile_grid)))"
    by (simp only: quantile_sweep [of "quantile_row E False", OF quantile_row_st] quantile_grid_dy map_map comp_def)
  then show ?thesis
    unfolding plot_quantile_def open_csv_st g_def [symmetric]
    by (simp only: bind.bind_lunit close_csv_st)
qed

lemma plot_quantilelower_limit_run:
  "plot_quantilelower_limit E filepath h =
     Some (h\<lparr>files :=
               (if openable h filepath
                then (files h)(filepath \<mapsto>
                       csv_file ''x,quantile'' (map (\<lambda>x. row_tokens x [mapairy_quantile E x False]) lower_tail))
                else files h),
             calls := calls h @ concat (map (\<lambda>x. [Quantile_call x False]) lower_tail)\<rparr>)"
proof -
  define g where "g = openable h filepath"
  have "for_double (\<lambda>x. dgt x (ldexp (Fin 1) (- 1000))) (\<lambda>x. ddiv x (Fin 2))
          (quantile_row E False) (ddiv (Fin 1) (Fin 8192)) (st g (if g then [Str ''x,quantile'', Endl] else []) (calls h)) =
        Some (st g ((if g then [Str ''x,quantile'', Endl] else []) @
                    concat (map (\<lambda>x. if g then row_tokens x [mapairy_quantile E x False] else []) lower_tail))
                 (calls h @ concat (map (\<lambda>x. [Quantile_call x False]) lower_tail)))"
    by (simp only: lower_sweep [of "quantile_row E False", OF quantile_row_st] lower_tail_dy map_map comp_def)
  then show ?thesis
    unfolding plot_quantilelower_limit_def open_csv_st g_def [symmetric]
    by (simp only: bind.bind_lunit close_csv_st)
qed

lemma plot_quantileupper_limit_run:
  "plot_quantileupper_limit E filepath h =
     Some (h\<lparr>files :=
               (if openable h filepath
                then (files h)(filepath \<mapsto>
                       csv_file ''x,cquantile'' (map (\<lambda>x. row_tokens x [mapairy_quantile E x True]) upper_tail))
                else files h),
             calls := calls h @ concat (map (\<lambda>x. [Quantile_call x True]) upper_tail)\<rparr>)"
proof -
  define g where "g = openable h filepath"
  have "for_double (\<lambda>x0. dgt x0 (ldexp (Fin 1) (- 128))) (\<lambda>x0. ddiv x0 (Fin 2))
          (\<lambda>x0. for_double (\<lambda>x. dgt x (ddiv x0 (Fin 2))) (\<lambda>x. dsub x (ddiv x0 (Fin 256)))
                  (quantile_row E True) x0)
          (ddiv (Fin 1) (Fin 8192)) (st g (if g then [Str ''x,cquantile'', Endl] else []) (calls h)) =
        Some (st g ((if g then [Str ''x,cquantile'', Endl] else []) @
                    concat (map (\<lambda>x. if g then row_tokens x [mapairy_quantile E x True] else []) upper_tail))
                 (calls h @ concat (map (\<lambda>x. [Quantile_call x True]) upper_tail)))"
    by (simp only: octave_down_sweep [of "quantile_row E True", OF quantile_row_st] upper_tail_dy concat_map_concat octave_down_dy map_map comp_def)
  then show ?thesis
    unfolding plot_quantileupper_limit_def open_csv_st g_def [symmetric]
    by (simp only: bind.bind_lunit close_csv_st)
qed

subsection \<open>Order and range of the sample points\<close>



lemma octave_up_bounds:
  assumes "x \<in> set (octave_up k)"
  obtains a where "x = Fin a" "2 ^ k \<le> a" "a < 2 ^ Suc k"
proof -
  from assms obtain j :: nat where j: "j < 256"
    and x: "x = Fin (2 ^ k + of_nat j * (2 ^ k / 256))"
    by (auto simp: octave_up_def)
  define c :: rat where "c = 2 ^ k / 256"
  have c: "0 < c" "2 ^ k = 256 * c" by (simp_all add: c_def)
  have "of_nat j * c < 256 * c"
    using j c(1) by (intro mult_strict_right_mono) simp_all
  moreover have "0 \<le> of_nat j * c" using c(1) by simp
  ultimately have "2 ^ k \<le> 2 ^ k + of_nat j * c" "2 ^ k + of_nat j * c < 2 ^ Suc k"
    by (simp_all add: c(2))
  then show thesis using x that by (simp add: c_def)
qed

lemma octave_down_bounds:
  assumes "x \<in> set (octave_down k)"
  obtains a where "x = Fin a" "1 / 2 ^ Suc k < a" "a \<le> 1 / 2 ^ k"
proof -
  from assms obtain j :: nat where j: "j < 128"
    and x: "x = Fin (1 / 2 ^ k - of_nat j * (1 / 2 ^ k / 256))"
    by (auto simp: octave_down_def)
  define c :: rat where "c = 1 / 2 ^ k / 256"
  have c: "0 < c" "1 / 2 ^ k = 256 * c" "1 / 2 ^ Suc k = 128 * c" by (simp_all add: c_def)
  have "of_nat j * c < 128 * c"
    using j c(1) by (intro mult_strict_right_mono) simp_all
  moreover have "0 \<le> of_nat j * c" using c(1) by simp
  ultimately have "1 / 2 ^ Suc k < 1 / 2 ^ k - of_nat j * c" "1 / 2 ^ k - of_nat j * c \<le> 1 / 2 ^ k"
    unfolding c(2,3) by linarith+
  then show thesis using x that by (simp add: c_def)
qed








subsection \<open>The whole run\<close>

lemma plot_steps:
  "\<exists>h'. plot_pdf E filepath h = Some h' \<and> cout h' = cout h \<and>
     calls h' = calls h @ concat (map (\<lambda>x. [Pdf_call x]) central_grid)"
  "\<exists>h'. plot_pdf_limit E filepath h = Some h' \<and> cout h' = cout h \<and>
     calls h' = calls h @ concat (map (\<lambda>x. [Pdf_call x]) right_tail)"
  "\<exists>h'. plot_cdf E filepath h = Some h' \<and> cout h' = cout h \<and>
     calls h' = calls h @ concat (map (\<lambda>x. [Cdf_call x False, Cdf_call x True]) central_grid)"
  "\<exists>h'. plot_cdf_limit E filepath h = Some h' \<and> cout h' = cout h \<and>
     calls h' = calls h @ concat (map (\<lambda>x. [Cdf_call x True]) right_tail)"
  "\<exists>h'. plot_quantile E filepath h = Some h' \<and> cout h' = cout h \<and>
     calls h' = calls h @ concat (map (\<lambda>x. [Quantile_call x False]) quantile_grid)"
  "\<exists>h'. plot_quantilelower_limit E filepath h = Some h' \<and> cout h' = cout h \<and>
     calls h' = calls h @ concat (map (\<lambda>x. [Quantile_call x False]) lower_tail)"
  "\<exists>h'. plot_quantileupper_limit E filepath h = Some h' \<and> cout h' = cout h \<and>
     calls h' = calls h @ concat (map (\<lambda>x. [Quantile_call x True]) upper_tail)"
  by (simp_all add: plot_pdf_run plot_pdf_limit_run plot_cdf_run plot_cdf_limit_run
      plot_quantile_run plot_quantilelower_limit_run plot_quantileupper_limit_run
      split del: if_split)

lemma main_run:
  "\<exists>h. main E opens = Some h \<and> cout h = [Str ''END'', Endl] \<and>
     calls h =
       concat (map (\<lambda>x. [Pdf_call x]) central_grid) @
       concat (map (\<lambda>x. [Pdf_call x]) right_tail) @
       concat (map (\<lambda>x. [Cdf_call x False, Cdf_call x True]) central_grid) @
       concat (map (\<lambda>x. [Cdf_call x True]) right_tail) @
       concat (map (\<lambda>x. [Quantile_call x False]) quantile_grid) @
       concat (map (\<lambda>x. [Quantile_call x False]) lower_tail) @
       concat (map (\<lambda>x. [Quantile_call x True]) upper_tail)"
proof -
  have h0: "cout (start opens) = []" "calls (start opens) = []"
    by (simp_all add: start_def)
  obtain h1 where h1: "plot_pdf E ''../results/mapairy_pdf_cpp.csv'' (start opens) = Some h1"
    "cout h1 = cout (start opens)" "calls h1 = calls (start opens) @ concat (map (\<lambda>x. [Pdf_call x]) central_grid)"
    using plot_steps(1) by blast
  obtain h2 where h2: "plot_pdf_limit E ''../results/mapairy_pdf_limit_cpp.csv'' h1 = Some h2"
    "cout h2 = cout h1" "calls h2 = calls h1 @ concat (map (\<lambda>x. [Pdf_call x]) right_tail)"
    using plot_steps(2) by blast
  obtain h3 where h3: "plot_cdf E ''../results/mapairy_cdf_cpp.csv'' h2 = Some h3"
    "cout h3 = cout h2" "calls h3 = calls h2 @ concat (map (\<lambda>x. [Cdf_call x False, Cdf_call x True]) central_grid)"
    using plot_steps(3) by blast
  obtain h4 where h4: "plot_cdf_limit E ''../results/mapairy_cdf_limit_cpp.csv'' h3 = Some h4"
    "cout h4 = cout h3" "calls h4 = calls h3 @ concat (map (\<lambda>x. [Cdf_call x True]) right_tail)"
    using plot_steps(4) by blast
  obtain h5 where h5: "plot_quantile E ''../results/mapairy_quantile_cpp.csv'' h4 = Some h5"
    "cout h5 = cout h4" "calls h5 = calls h4 @ concat (map (\<lambda>x. [Quantile_call x False]) quantile_grid)"
    using plot_steps(5) by blast
  obtain h6 where h6: "plot_quantilelower_limit E ''../results/mapairy_quantilelower_limit_cpp.csv'' h5 = Some h6"
    "cout h6 = cout h5" "calls h6 = calls h5 @ concat (map (\<lambda>x. [Quantile_call x False]) lower_tail)"
    using plot_steps(6) by blast
  obtain h7 where h7: "plot_quantileupper_limit E ''../results/mapairy_quantileupper_limit_cpp.csv'' h6 = Some h7"
    "cout h7 = cout h6" "calls h7 = calls h6 @ concat (map (\<lambda>x. [Quantile_call x True]) upper_tail)"
    using plot_steps(7) by blast
  have "main E opens = Some (h7\<lparr>cout := cout h7 @ [Str ''END'', Endl]\<rparr>)"
    unfolding main_def by (simp only: h1(1) h2(1) h3(1) h4(1) h5(1) h6(1) h7(1) bind.bind_lunit)
  moreover have "cout h7 = []"
    by (simp only: h0 h1(2) h2(2) h3(2) h4(2) h5(2) h6(2) h7(2))
  moreover have "calls h7 =
       concat (map (\<lambda>x. [Pdf_call x]) central_grid) @
       concat (map (\<lambda>x. [Pdf_call x]) right_tail) @
       concat (map (\<lambda>x. [Cdf_call x False, Cdf_call x True]) central_grid) @
       concat (map (\<lambda>x. [Cdf_call x True]) right_tail) @
       concat (map (\<lambda>x. [Quantile_call x False]) quantile_grid) @
       concat (map (\<lambda>x. [Quantile_call x False]) lower_tail) @
       concat (map (\<lambda>x. [Quantile_call x True]) upper_tail)"
    by (simp only: h0 h1(3) h2(3) h3(3) h4(3) h5(3) h6(3) h7(3) append_Nil append_assoc)
  ultimately show ?thesis by simp
qed

lemma length_grids:
  "length central_grid = 71681" "length quantile_grid = 8191" "length lower_tail = 987"
  by (simp_all add: central_grid_def quantile_grid_def lower_tail_def)

lemma central_grid_ends: "central_grid ! 0 = Fin (- 6)" "central_grid ! 71680 = Fin 64"
  by (simp_all add: central_grid_def)


subsection \<open>Probabilities handed to the quantile function\<close>

lemma quantile_grid_range:
  assumes "x \<in> set quantile_grid"
  shows "dlt (Fin 0) x \<and> dlt x (Fin 1)"
  using assms by (auto simp: quantile_grid_def)

lemma lower_tail_range:
  assumes "x \<in> set lower_tail"
  shows "dlt (Fin 0) x \<and> dlt x (Fin 1)"
proof -
  from assms obtain k :: nat where k: "13 \<le> k" and x: "x = Fin (1 / 2 ^ k)"
    by (auto simp: lower_tail_def)
  have "(1::rat) < 2 ^ k"
    using k by (intro one_less_power) simp_all
  then show ?thesis by (simp add: x)
qed

lemma upper_tail_range:
  assumes "x \<in> set upper_tail"
  shows "dlt (Fin 0) x \<and> dlt x (Fin 1)"
proof -
  from assms have "\<exists>k\<in>{13..<128}. x \<in> set (octave_down k)"
    by (simp only: upper_tail_def set_concat set_map set_upt UN_iff bex_simps image_iff)
  then obtain k :: nat where k: "13 \<le> k" and xk: "x \<in> set (octave_down k)"
    by auto
  from xk obtain a where a: "x = Fin a" "1 / 2 ^ Suc k < a" "a \<le> 1 / 2 ^ k"
    by (rule octave_down_bounds)
  have "(1::rat) < 2 ^ k"
    using k by (intro one_less_power) simp_all
  then have "1 / (2::rat) ^ k < 1" by simp
  with a(3) have hi: "a < 1" by (rule le_less_trans)
  have "(0::rat) < 1 / 2 ^ Suc k" by simp
  then have lo: "0 < a" using a(2) by (rule less_trans)
  show ?thesis using lo hi by (simp only: a(1) dlt.simps simp_thms)
qed

lemma list_all_calls:
  "list_all P (concat (map (\<lambda>x. [f x]) xs)) \<longleftrightarrow> (\<forall>x \<in> set xs. P (f x))"
  "list_all P (concat (map (\<lambda>x. [f x, g x]) xs)) \<longleftrightarrow> (\<forall>x \<in> set xs. P (f x) \<and> P (g x))"
  by (induction xs) auto




subsection \<open>The extremes of the tail sweeps\<close>

lemma in_concat_map_upt:
  "x \<in> set (concat (map F [a..<b])) \<longleftrightarrow> (\<exists>k. a \<le> k \<and> k < b \<and> x \<in> set (F k))"
  by auto

lemma lower_tail_floor:
  assumes "x \<in> set lower_tail"
  shows "dle (Fin (1 / 2 ^ 999)) x"
proof -
  from assms obtain k :: nat where k: "k < 1000" and x: "x = Fin (1 / 2 ^ k)"
    by (auto simp: lower_tail_def)
  have "(2::rat) ^ k \<le> 2 ^ 999"
    using k by (intro power_increasing) simp_all
  then have "1 / (2::rat) ^ 999 \<le> 1 / 2 ^ k"
    by (intro divide_left_mono) simp_all
  then show ?thesis by (simp only: x dle.simps)
qed

lemma octave_down_floor:
  assumes "x \<in> set (octave_down k)"
  obtains a where "x = Fin a" "129 * (1 / 2 ^ (k + 8)) \<le> a"
proof -
  from assms obtain j :: nat where j: "j < 128"
    and x: "x = Fin (1 / 2 ^ k - of_nat j * (1 / 2 ^ k / 256))"
    by (auto simp: octave_down_def)
  define c :: rat where "c = 1 / 2 ^ (k + 8)"
  have c: "0 < c" "1 / 2 ^ k = 256 * c" by (simp_all add: c_def power_add)
  have "of_nat j \<le> (127::rat)" using j by simp
  then have "of_nat j * c \<le> 127 * c"
    using c(1) by (intro mult_right_mono) simp_all
  then have "129 * c \<le> 256 * c - of_nat j * (256 * c / 256)" by simp
  then show thesis using x that unfolding c(2) c_def by blast
qed

lemma upper_tail_floor:
  assumes "x \<in> set upper_tail"
  shows "dle (Fin (1 / 2 ^ 128 + 1 / 2 ^ 135)) x"
proof -
  from assms obtain k :: nat where k: "k < 128" and xk: "x \<in> set (octave_down k)"
    unfolding upper_tail_def in_concat_map_upt by blast
  from xk obtain a where a: "x = Fin a" "129 * (1 / 2 ^ (k + 8)) \<le> a"
    by (rule octave_down_floor)
  have "(2::rat) ^ (k + 8) \<le> 2 ^ 135"
    using k by (intro power_increasing) simp_all
  then have "1 / (2::rat) ^ 135 \<le> 1 / 2 ^ (k + 8)"
    by (intro divide_left_mono) simp_all
  then have "129 * (1 / (2::rat) ^ 135) \<le> 129 * (1 / 2 ^ (k + 8))"
    by (intro mult_left_mono) simp_all
  moreover have "1 / (2::rat) ^ 128 + 1 / 2 ^ 135 = 129 * (1 / 2 ^ 135)"
    by simp
  ultimately have "1 / (2::rat) ^ 128 + 1 / 2 ^ 135 \<le> 129 * (1 / 2 ^ (k + 8))"
    by (simp only:)
  then have "1 / 2 ^ 128 + 1 / 2 ^ 135 \<le> a"
    using a(2) by (rule order_trans)
  then show ?thesis by (simp only: a(1) dle.simps)
qed

lemma lower_tail_last: "Fin (1 / 2 ^ 999) \<in> set lower_tail"
  unfolding lower_tail_def set_map by (rule image_eqI [where x = 999]) simp_all


lemma upper_tail_last: "Fin (1 / 2 ^ 128 + 1 / 2 ^ 135) \<in> set upper_tail"
proof -
  have "Fin (1 / 2 ^ 128 + 1 / 2 ^ 135) \<in> set (octave_down 127)"
    unfolding octave_down_def set_map by (rule image_eqI [where x = 127]) simp_all
  then show ?thesis
    unfolding upper_tail_def in_concat_map_upt by (intro exI [where x = 127]) simp
qed

lemma right_tail_range:
  assumes "x \<in> set right_tail"
  shows "dle (Fin 64) x \<and> dlt x (Fin (2 ^ 65))"
proof -
  from assms obtain k :: nat where k: "6 \<le> k" "k < 65" and xk: "x \<in> set (octave_up k)"
    unfolding right_tail_def in_concat_map_upt by blast
  from xk obtain a where a: "x = Fin a" "2 ^ k \<le> a" "a < 2 ^ Suc k"
    by (rule octave_up_bounds)
  have "(2::rat) ^ 6 \<le> 2 ^ k"
    using k(1) by (intro power_increasing) simp_all
  then have lo: "64 \<le> a" using a(2) by simp
  have "(2::rat) ^ Suc k \<le> 2 ^ 65"
    using k(2) by (intro power_increasing) simp_all
  with a(3) have hi: "a < 2 ^ 65" by (rule less_le_trans)
  show ?thesis using lo hi by (simp only: a(1) dle.simps dlt.simps simp_thms)
qed

lemma right_tail_top: "Fin (2 ^ 64 + 2 ^ 56) \<in> set right_tail" "Fin (2 ^ 65 - 2 ^ 56) \<in> set right_tail"
  and right_tail_2_64: "Fin (2 ^ 64) \<in> set right_tail"
proof -
  have "Fin (2 ^ 64 + 2 ^ 56) \<in> set (octave_up 64)"
    unfolding octave_up_def set_map by (rule image_eqI [where x = 1]) simp_all
  then show "Fin (2 ^ 64 + 2 ^ 56) \<in> set right_tail"
    unfolding right_tail_def in_concat_map_upt by (intro exI [where x = 64]) simp
  have "Fin (2 ^ 65 - 2 ^ 56) \<in> set (octave_up 64)"
    unfolding octave_up_def set_map by (rule image_eqI [where x = 255]) simp_all
  then show "Fin (2 ^ 65 - 2 ^ 56) \<in> set right_tail"
    unfolding right_tail_def in_concat_map_upt by (intro exI [where x = 64]) simp
  have "Fin (2 ^ 64) \<in> set (octave_up 64)"
    unfolding octave_up_def set_map by (rule image_eqI [where x = 0]) simp_all
  then show "Fin (2 ^ 64) \<in> set right_tail"
    unfolding right_tail_def in_concat_map_upt by (intro exI [where x = 64]) simp
qed

lemma hd_octave_up: "hd (octave_up k) = Fin (2 ^ k)"
  by (simp add: octave_up_def hd_map)

lemma cdf_tail_reaches_2_64:
  "\<exists>h'. plot_cdf_limit E filepath h = Some h' \<and> Cdf_call (Fin (2 ^ 64)) True \<in> set (calls h')"
  using right_tail_2_64 by (simp add: plot_cdf_limit_run del: power_numeral)

section \<open>The claims\<close>

text \<open>
  C1 as stated fails. The bound of each limit sweep of the quantile is exclusive
  (\<^verbatim>\<open>x > ldexp(1, -1000)\<close>, \<^verbatim>\<open>x0 > ldexp(1, -128)\<close> and \<^verbatim>\<open>x > x0 / 2\<close>): both sweeps
  return, and the engine is never called at \<open>p = 2 ^ -1000\<close>, nor at \<open>q = 2 ^ -128\<close>.
\<close>

theorem limit_sweeps_skip_stated_extremes:
  "plot_quantilelower_limit nan_engine ''lower.csv'' (start every_file_opens) \<noteq> None \<and>
   Quantile_call (Fin (1 / 2 ^ 1000)) False \<notin>
     set (calls_of (plot_quantilelower_limit nan_engine ''lower.csv'' (start every_file_opens))) \<and>
   plot_quantileupper_limit nan_engine ''upper.csv'' (start every_file_opens) \<noteq> None \<and>
   Quantile_call (Fin (1 / 2 ^ 128)) True \<notin>
     set (calls_of (plot_quantileupper_limit nan_engine ''upper.csv'' (start every_file_opens)))"
proof (intro conjI)
  show "plot_quantilelower_limit nan_engine ''lower.csv'' (start every_file_opens) \<noteq> None"
    by (simp add: plot_quantilelower_limit_run)
  show "plot_quantileupper_limit nan_engine ''upper.csv'' (start every_file_opens) \<noteq> None"
    by (simp add: plot_quantileupper_limit_run)
  have "\<not> dle (Fin (1 / 2 ^ 999)) (Fin (1 / 2 ^ 1000))" by simp
  then have "Fin (1 / 2 ^ 1000) \<notin> set lower_tail"
    using lower_tail_floor by blast
  then show "Quantile_call (Fin (1 / 2 ^ 1000)) False \<notin>
     set (calls_of (plot_quantilelower_limit nan_engine ''lower.csv'' (start every_file_opens)))"
    by (auto simp add: calls_of_def plot_quantilelower_limit_run start_def
        simp del: power_numeral)
  have "\<not> dle (Fin (1 / 2 ^ 128 + 1 / 2 ^ 135)) (Fin (1 / 2 ^ 128))" by simp
  then have "Fin (1 / 2 ^ 128) \<notin> set upper_tail"
    using upper_tail_floor by blast
  then show "Quantile_call (Fin (1 / 2 ^ 128)) True \<notin>
     set (calls_of (plot_quantileupper_limit nan_engine ''upper.csv'' (start every_file_opens)))"
    by (auto simp add: calls_of_def plot_quantileupper_limit_run start_def
        simp del: power_numeral)
qed

text \<open>
  C1, amended. The lower-tail sweep calls \<open>mapairy_quantile(p)\<close> for the probabilities
  halving from \<open>2 ^ -13\<close> down to and including \<open>2 ^ -999\<close>, the least it reaches; the
  upper-tail sweep calls \<open>mapairy_quantile(q, true)\<close> for complements down to and including
  \<open>2 ^ -128 + 2 ^ -135\<close>, the least it reaches.
\<close>

theorem limit_sweeps_reach:
  "(\<exists>h'. plot_quantilelower_limit E filepath h = Some h' \<and>
      calls h' = calls h @ map (\<lambda>x. Quantile_call x False) lower_tail) \<and>
   (\<exists>h'. plot_quantileupper_limit E filepath h = Some h' \<and>
      calls h' = calls h @ map (\<lambda>x. Quantile_call x True) upper_tail) \<and>
   lower_tail = map (\<lambda>k. Fin (1 / 2 ^ k)) [13..<1000] \<and>
   Fin (1 / 2 ^ 999) \<in> set lower_tail \<and>
   list_all (dle (Fin (1 / 2 ^ 999))) lower_tail \<and>
   Fin (1 / 2 ^ 128 + 1 / 2 ^ 135) \<in> set upper_tail \<and>
   list_all (dle (Fin (1 / 2 ^ 128 + 1 / 2 ^ 135))) upper_tail"
  using lower_tail_last upper_tail_last lower_tail_floor upper_tail_floor
  by (simp add: plot_quantilelower_limit_run plot_quantileupper_limit_run
      list_all_iff del: power_numeral) (simp only: lower_tail_def)


text \<open>
  C6 as stated fails. The octave that starts at \<open>x0 = 2 ^ 64\<close> is swept in full, so the
  engine is called above \<open>2 ^ 64\<close>, first at \<open>2 ^ 64 + 2 ^ 56\<close>.
\<close>

theorem right_tail_exceeds_2_64:
  "Pdf_call (Fin (2 ^ 64 + 2 ^ 56)) \<in>
     set (calls_of (plot_pdf_limit nan_engine ''pdf_limit.csv'' (start every_file_opens))) \<and>
   \<not> dle (Fin (2 ^ 64 + 2 ^ 56)) (Fin (2 ^ 64))"
proof
  show "Pdf_call (Fin (2 ^ 64 + 2 ^ 56)) \<in>
     set (calls_of (plot_pdf_limit nan_engine ''pdf_limit.csv'' (start every_file_opens)))"
    using right_tail_top(1)
    by (simp add: calls_of_def plot_pdf_limit_run start_def
        del: power_numeral)
  show "\<not> dle (Fin (2 ^ 64 + 2 ^ 56)) (Fin (2 ^ 64))" by simp
qed


text \<open>
  C6, amended. In \<open>plot_pdf_limit\<close> and \<open>plot_cdf_limit\<close> the octave base takes exactly the
  values \<open>2 ^ 6, 2 ^ 7, \<dots>, 2 ^ 64\<close>, and every argument handed to \<open>mapairy_pdf\<close> or
  \<open>mapairy_cdf\<close> satisfies \<open>64 \<le> x < 2 ^ 65\<close>; the greatest is \<open>2 ^ 65 - 2 ^ 56\<close>.
\<close>

theorem right_tail_sweeps:
  "(\<exists>h'. plot_pdf_limit E filepath h = Some h' \<and>
      calls h' = calls h @ map Pdf_call right_tail) \<and>
   (\<exists>h'. plot_cdf_limit E filepath h = Some h' \<and>
      calls h' = calls h @ map (\<lambda>x. Cdf_call x True) right_tail) \<and>
   right_tail = concat (map octave_up [6..<65]) \<and>
   map (\<lambda>k. hd (octave_up k)) [6..<65] = map (\<lambda>k. Fin (2 ^ k)) [6..<65] \<and>
   list_all (\<lambda>x. dle (Fin 64) x \<and> dlt x (Fin (2 ^ 65))) right_tail \<and>
   Fin (2 ^ 65 - 2 ^ 56) \<in> set right_tail"
  using right_tail_range right_tail_top(2)
  by (simp add: plot_pdf_limit_run plot_cdf_limit_run list_all_iff
      hd_octave_up del: power_numeral) (simp only: right_tail_def)


text \<open>
  C7. The central sweeps cover \<open>[-6, 64]\<close>: \<open>plot_pdf\<close> and \<open>plot_cdf\<close> call the engine at
  every grid point \<open>-6 + k * 2 ^ -10\<close> for \<open>k = 0, \<dots>, 71680\<close>, in this order and at no
  other point; the first point is exactly \<open>-6\<close> and the last exactly \<open>64\<close>, the step
  accumulating without rounding error.
\<close>

theorem central_sweeps_cover_grid:
  "\<exists>h1 h2.
     plot_pdf E filepath h = Some h1 \<and>
     calls h1 = calls h @ map (\<lambda>k. Pdf_call (Fin (- 6 + of_nat k / 1024))) [0..<71681] \<and>
     plot_cdf E filepath h = Some h2 \<and>
     calls h2 = calls h @
       concat (map (\<lambda>k. [Cdf_call (Fin (- 6 + of_nat k / 1024)) False,
                          Cdf_call (Fin (- 6 + of_nat k / 1024)) True]) [0..<71681]) \<and>
     central_grid = map (\<lambda>k. Fin (- 6 + of_nat k / 1024)) [0..<71681] \<and>
     central_grid ! 0 = Fin (- 6) \<and> central_grid ! 71680 = Fin 64"
  by (simp add: plot_pdf_run plot_cdf_run central_grid_ends)
    (simp add: central_grid_def comp_def)




text \<open>
  C9. Every probability handed to \<open>mapairy_quantile\<close> in a run of \<open>main\<close> lies strictly
  between 0 and 1; the grid of \<open>plot_quantile\<close> is exactly \<open>k / 8192\<close> for
  \<open>k = 1, \<dots>, 8191\<close>.
\<close>

theorem quantile_probabilities_in_range:
  "(\<exists>h'. plot_quantile E filepath h = Some h' \<and>
      calls h' = calls h @ map (\<lambda>k. Quantile_call (Fin (of_nat k / 8192)) False) [1..<8192]) \<and>
   (\<exists>h'. main E opens = Some h' \<and> list_all probability_in_range (calls h'))"
proof
  show "\<exists>h'. plot_quantile E filepath h = Some h' \<and>
      calls h' = calls h @ map (\<lambda>k. Quantile_call (Fin (of_nat k / 8192)) False) [1..<8192]"
    by (simp add: plot_quantile_run) (simp add: quantile_grid_def comp_def)
  obtain h' where h': "main E opens = Some h'"
    and c: "calls h' =
       concat (map (\<lambda>x. [Pdf_call x]) central_grid) @
       concat (map (\<lambda>x. [Pdf_call x]) right_tail) @
       concat (map (\<lambda>x. [Cdf_call x False, Cdf_call x True]) central_grid) @
       concat (map (\<lambda>x. [Cdf_call x True]) right_tail) @
       concat (map (\<lambda>x. [Quantile_call x False]) quantile_grid) @
       concat (map (\<lambda>x. [Quantile_call x False]) lower_tail) @
       concat (map (\<lambda>x. [Quantile_call x True]) upper_tail)"
    using main_run [of E opens] by blast
  have "list_all probability_in_range (calls h')"
    unfolding c list_all_append list_all_calls
    using quantile_grid_range lower_tail_range upper_tail_range by simp
  with h' show "\<exists>h'. main E opens = Some h' \<and> list_all probability_in_range (calls h')"
    by blast
qed


text \<open>
  C10. Every sweep loop ends: each plot function returns, \<open>plot_pdf\<close> after exactly 71681
  engine calls, \<open>plot_quantile\<close> after exactly 8191 and \<open>plot_quantilelower_limit\<close> after
  exactly 987 (at \<open>2 ^ -13\<close> down to \<open>2 ^ -999\<close>), and \<open>main\<close> runs to its last statement,
  the line \<^verbatim>\<open>END\<close> on the console.
\<close>

theorem sweeps_terminate:
  "(\<exists>h'. plot_pdf E filepath h = Some h' \<and> length (calls h') = length (calls h) + 71681) \<and>
   (\<exists>h'. plot_pdf_limit E filepath h = Some h') \<and>
   (\<exists>h'. plot_cdf E filepath h = Some h') \<and>
   (\<exists>h'. plot_cdf_limit E filepath h = Some h') \<and>
   (\<exists>h'. plot_quantile E filepath h = Some h' \<and> length (calls h') = length (calls h) + 8191) \<and>
   (\<exists>h'. plot_quantilelower_limit E filepath h = Some h' \<and>
      length (calls h') = length (calls h) + 987 \<and>
      calls h' = calls h @ map (\<lambda>k. Quantile_call (Fin (1 / 2 ^ k)) False) [13..<1000]) \<and>
   (\<exists>h'. plot_quantileupper_limit E filepath h = Some h') \<and>
   (\<exists>h'. main E opens = Some h' \<and> cout h' = [Str ''END'', Endl])"
proof -
  obtain h' where "main E opens = Some h'" "cout h' = [Str ''END'', Endl]"
    using main_run [of E opens] by blast
  moreover have "map (\<lambda>x. Quantile_call x False) lower_tail =
      map (\<lambda>k. Quantile_call (Fin (1 / 2 ^ k)) False) [13..<1000]"
    by (simp add: lower_tail_def comp_def)
  ultimately show ?thesis
    by (simp add: plot_pdf_run plot_pdf_limit_run plot_cdf_run plot_cdf_limit_run
        plot_quantile_run plot_quantilelower_limit_run plot_quantileupper_limit_run length_grids)
qed

end
